theory Spec2Isabelle
  imports Complex_Main "HOL-Library.Sublist"
begin

section \<open>Invoice line-pair extractor: the text scan of server.py and app.py\<close>

text \<open>
  The two source files hold the same scanner: \<^verbatim>\<open>parse_products_from_text\<close> in
  server.py and the second half of \<^verbatim>\<open>extract_invoice_data\<close> in app.py. Both split
  the text at line feeds, strip each line, and walk the lines with one pending
  description slot.

  Conventions of the model.
  \<^item> A Python \<^verbatim>\<open>str\<close> is a \<^typ>\<open>string\<close>; each \<^typ>\<open>char\<close> stands for one code
    point below 256. On that range \<^verbatim>\<open>\d\<close> is \<^verbatim>\<open>0\<close>-\<^verbatim>\<open>9\<close>, and
    \<^verbatim>\<open>\s\<close> and \<^verbatim>\<open>str.strip()\<close> use the same twelve white-space code points.
  \<^item> The value of \<^verbatim>\<open>float(s)\<close> is kept as the exact decimal number that \<^verbatim>\<open>s\<close>
    denotes (a \<^typ>\<open>rat\<close>); the rounding to the nearest double is left out.
  \<^item> An exception is a value \<open>Inl e\<close> of the result type.
\<close>

subsection \<open>Exceptions\<close>

datatype error = ValueError | IndexError

subsection \<open>Character classes\<close>

definition newline :: char where
  "newline = CHR 0x0A"

text \<open>\<^verbatim>\<open>\d\<close> on code points below 256.\<close>

definition is_digit :: "char \<Rightarrow> bool" where
  "is_digit c \<longleftrightarrow> c \<in> set ''0123456789''"

text \<open>\<^verbatim>\<open>\s\<close> and the characters removed by \<^verbatim>\<open>str.strip()\<close>, on code points below 256:
  TAB, LF, VT, FF, CR, FS, GS, RS, US, SPACE, NEL, NBSP.\<close>

definition is_space :: "char \<Rightarrow> bool" where
  "is_space c \<longleftrightarrow> c \<in> set [CHR 0x09, CHR 0x0A, CHR 0x0B, CHR 0x0C, CHR 0x0D,
     CHR 0x1C, CHR 0x1D, CHR 0x1E, CHR 0x1F, CHR 0x20, CHR 0x85, CHR 0xA0]"

text \<open>\<^verbatim>\<open>.\<close> without DOTALL: any character but the line feed.\<close>

definition is_any :: "char \<Rightarrow> bool" where
  "is_any c \<longleftrightarrow> c \<noteq> newline"

text \<open>\<^verbatim>\<open>[\d\s/]\<close>\<close>

definition is_dim :: "char \<Rightarrow> bool" where
  "is_dim c \<longleftrightarrow> is_digit c \<or> is_space c \<or> c = CHR ''/''"

text \<open>\<^verbatim>\<open>[\d\.]\<close>\<close>

definition is_num :: "char \<Rightarrow> bool" where
  "is_num c \<longleftrightarrow> is_digit c \<or> c = CHR ''.''"

text \<open>Lower-casing of the ASCII letters; every other character is left as it is.\<close>

definition ascii_lower :: "char \<Rightarrow> char" where
  "ascii_lower c =
     (case map_of (zip ''ABCDEFGHIJKLMNOPQRSTUVWXYZ'' ''abcdefghijklmnopqrstuvwxyz'') c of
        Some l \<Rightarrow> l
      | None \<Rightarrow> c)"

text \<open>A literal character of a pattern compiled with \<^verbatim>\<open>re.IGNORECASE\<close>.\<close>

definition is_ichar :: "char \<Rightarrow> char \<Rightarrow> bool" where
  "is_ichar l c \<longleftrightarrow> ascii_lower c = ascii_lower l"

text \<open>A literal character of a case-sensitive pattern.\<close>

definition is_char :: "char \<Rightarrow> char \<Rightarrow> bool" where
  "is_char l c \<longleftrightarrow> c = l"

subsection \<open>String operations of Python\<close>

text \<open>\<^verbatim>\<open>s.split(sep)\<close> for a one-character separator: never the empty list.\<close>

fun py_split :: "char \<Rightarrow> string \<Rightarrow> string list" where
  "py_split sep [] = [[]]"
| "py_split sep (c # cs) =
     (if c = sep then [] # py_split sep cs
      else (case py_split sep cs of
              [] \<Rightarrow> [[c]]
            | w # ws \<Rightarrow> (c # w) # ws))"

text \<open>\<^verbatim>\<open>s.strip()\<close>\<close>

definition py_strip :: "string \<Rightarrow> string" where
  "py_strip s = rev (dropWhile is_space (rev (dropWhile is_space s)))"

text \<open>\<^verbatim>\<open>s.startswith(p)\<close>\<close>

definition startswith :: "string \<Rightarrow> string \<Rightarrow> bool" where
  "startswith s p \<longleftrightarrow> take (length p) s = p"

text \<open>\<^verbatim>\<open>xs[-1]\<close>: IndexError on the empty list.\<close>

definition py_last :: "'a list \<Rightarrow> error + 'a" where
  "py_last xs = (case xs of [] \<Rightarrow> Inl IndexError | _ \<Rightarrow> Inr (last xs))"

text \<open>
  \<^verbatim>\<open>float(s)\<close> on a string of digits and dots, which is all the group
  \<^verbatim>\<open>([\d\.]+)\<close> can capture: digits with at most one dot and at least one digit
  give the decimal value, anything else raises ValueError.
\<close>

definition digits_val :: "string \<Rightarrow> nat" where
  "digits_val ds = foldl (\<lambda>a c. 10 * a + (of_char c - 48)) 0 ds"

definition py_float :: "string \<Rightarrow> error + rat" where
  "py_float s =
     (let ip = takeWhile is_digit s; rest = dropWhile is_digit s
      in case rest of
           [] \<Rightarrow> if ip = [] then Inl ValueError else Inr (of_nat (digits_val ip))
         | c # fp \<Rightarrow>
             if c = CHR ''.'' \<and> list_all is_digit fp \<and> (ip \<noteq> [] \<or> fp \<noteq> [])
             then Inr (of_nat (digits_val (ip @ fp)) / 10 ^ length fp)
             else Inl ValueError)"

subsection \<open>The backtracking matcher of the \<^verbatim>\<open>re\<close> module\<close>

text \<open>
  Every pattern of the source is a sequence of items, each a one-character class under a
  quantifier, some of them inside a capturing group. An item records its class, the
  least and the greatest number of repetitions (\<open>None\<close>: unbounded), whether the
  quantifier is greedy, and whether the item is a group.
\<close>

datatype item = Item (cls: "char \<Rightarrow> bool") (lo: nat) (hi: "nat option") (greedy: bool) (capture: bool)

text \<open>The repetition counts an item tries at the head of \<open>s\<close>, in the order the
  engine tries them: longest first when greedy, shortest first when lazy.\<close>

definition candidates :: "item \<Rightarrow> string \<Rightarrow> nat list" where
  "candidates it s =
     (let n = length (takeWhile (cls it) s);
          m = (case hi it of None \<Rightarrow> n | Some h \<Rightarrow> min n h);
          ks = [lo it ..< Suc m]
      in if greedy it then rev ks else ks)"

fun first_some :: "('a \<Rightarrow> 'b option) \<Rightarrow> 'a list \<Rightarrow> 'b option" where
  "first_some f [] = None"
| "first_some f (k # ks) = (case f k of Some r \<Rightarrow> Some r | None \<Rightarrow> first_some f ks)"

text \<open>\<^verbatim>\<open>pattern.match(s)\<close>: the groups of the first successful path, or \<open>None\<close>.\<close>

primrec match_items :: "item list \<Rightarrow> string \<Rightarrow> string list option" where
  "match_items [] s = Some []"
| "match_items (it # its) s =
     first_some
       (\<lambda>k. case match_items its (drop k s) of
               None \<Rightarrow> None
             | Some gs \<Rightarrow> Some (if capture it then take k s # gs else gs))
       (candidates it s)"

text \<open>\<^verbatim>\<open>re.search(pattern, s)\<close>: the match at the leftmost position that has one.\<close>

fun re_search :: "item list \<Rightarrow> string \<Rightarrow> string list option" where
  "re_search its [] = match_items its []"
| "re_search its (c # cs) =
     (case match_items its (c # cs) of
        Some gs \<Rightarrow> Some gs
      | None \<Rightarrow> re_search its cs)"

text \<open>Building blocks of the patterns.\<close>

definition lit :: "char \<Rightarrow> item" where
  "lit l = Item (is_char l) 1 (Some 1) True False"

definition ilit :: "char \<Rightarrow> item" where
  "ilit l = Item (is_ichar l) 1 (Some 1) True False"

definition ws_plus :: item where
  "ws_plus = Item is_space 1 None True False"

definition ws_star :: item where
  "ws_star = Item is_space 0 None True False"

text \<open>\<^verbatim>\<open>^(\d{4})\s+Series\s+(.+?)\s+([\d\s/]+)\s*x\s*([\d\s/]+)\s*-\<close> with
  \<^verbatim>\<open>re.IGNORECASE\<close>.\<close>

definition desc_pattern :: "item list" where
  "desc_pattern =
     [Item is_digit 4 (Some 4) True True, ws_plus] @ map ilit ''Series'' @
     [ws_plus, Item is_any 1 None False True, ws_plus, Item is_dim 1 None True True,
      ws_star, ilit CHR ''x'', ws_star, Item is_dim 1 None True True, ws_star,
      ilit CHR ''-'']"

text \<open>\<^verbatim>\<open>Width =\s*([\d\.]+)\<close> and \<^verbatim>\<open>Height =\s*([\d\.]+)\<close>\<close>

definition num_pattern :: "string \<Rightarrow> item list" where
  "num_pattern key = map lit key @ [ws_star, Item is_num 1 None True True]"

definition width_pattern :: "item list" where
  "width_pattern = num_pattern ''Width =''"

definition height_pattern :: "item list" where
  "height_pattern = num_pattern ''Height =''"

text \<open>\<^verbatim>\<open>m.group(i)\<close> of a match object, groups counted from 1.\<close>

definition group :: "string list \<Rightarrow> nat \<Rightarrow> error + string" where
  "group m i = (if 1 \<le> i \<and> i \<le> length m then Inr (m ! (i - 1)) else Inl IndexError)"

subsection \<open>The records\<close>

record pending =
  pending_Series_ID :: string
  pending_Window_Style :: string

record product =
  Manufacturer :: string
  Frame_Color :: string
  Series_ID :: string
  Window_Style :: string
  Width :: "rat option"
  Height :: "rat option"

subsection \<open>Sequencing of calls that may raise\<close>

definition ebind :: "error + 'a \<Rightarrow> ('a \<Rightarrow> error + 'b) \<Rightarrow> error + 'b" where
  "ebind r f = (case r of Inl e \<Rightarrow> Inl e | Inr x \<Rightarrow> f x)"

text \<open>\<^verbatim>\<open>float(w_match.group(1)) if w_match else None\<close>\<close>

definition float_or_none :: "string list option \<Rightarrow> error + rat option" where
  "float_or_none w_match =
     (case w_match of
        None \<Rightarrow> Inr None
      | Some m \<Rightarrow> ebind (group m 1) (\<lambda>g. ebind (py_float g) (\<lambda>v. Inr (Some v))))"

subsection \<open>server.py: \<^verbatim>\<open>parse_products_from_text\<close>\<close>

text \<open>The \<^verbatim>\<open>for line in lines\<close> loop, with the two variables it assigns.\<close>

fun parse_loop :: "pending option \<Rightarrow> product list \<Rightarrow> string list \<Rightarrow> error + product list" where
  "parse_loop pending products [] = Inr products"
| "parse_loop pending products (line # lines) =
     (if line = [] then parse_loop pending products lines
      else case match_items desc_pattern line of
        Some m \<Rightarrow>
          ebind (group m 1) (\<lambda>g1. ebind (group m 2) (\<lambda>g2.
            parse_loop
              (Some \<lparr>pending_Series_ID = py_strip g1 @ '' Series'',
                     pending_Window_Style = py_strip g2\<rparr>)
              products lines))
      | None \<Rightarrow>
          (case pending of
             Some p \<Rightarrow>
               if startswith line ''Frame:'' then
                 ebind (float_or_none (re_search width_pattern line)) (\<lambda>width.
                 ebind (float_or_none (re_search height_pattern line)) (\<lambda>height.
                 ebind (py_last (py_split CHR '','' line)) (\<lambda>seg.
                   parse_loop None
                     (products @
                       [\<lparr>Manufacturer = ''CWS'', Frame_Color = py_strip seg,
                         Series_ID = pending_Series_ID p,
                         Window_Style = pending_Window_Style p,
                         Width = width, Height = height\<rparr>])
                     lines)))
               else parse_loop pending products lines
           | None \<Rightarrow> parse_loop pending products lines))"

definition parse_products_from_text :: "string \<Rightarrow> error + product list" where
  "parse_products_from_text text =
     parse_loop None [] (map py_strip (py_split newline text))"

text \<open>\<^verbatim>\<open>extract_text_from_pdf\<close>: the argument is what pdfminer's \<^verbatim>\<open>extract_text\<close> did
  on the file, \<open>None\<close> when it raised.\<close>

definition extract_text_from_pdf :: "string option \<Rightarrow> string" where
  "extract_text_from_pdf extracted = (case extracted of None \<Rightarrow> [] | Some text \<Rightarrow> text)"

subsection \<open>app.py: \<^verbatim>\<open>extract_invoice_data\<close>\<close>

fun extract_loop :: "pending option \<Rightarrow> product list \<Rightarrow> string list \<Rightarrow> error + product list" where
  "extract_loop pending products [] = Inr products"
| "extract_loop pending products (line # lines) =
     (if line = [] then extract_loop pending products lines
      else case match_items desc_pattern line of
        Some match \<Rightarrow>
          ebind (group match 1) (\<lambda>g1. ebind (group match 2) (\<lambda>g2.
            extract_loop
              (Some \<lparr>pending_Series_ID = py_strip g1 @ '' Series'',
                     pending_Window_Style = py_strip g2\<rparr>)
              products lines))
      | None \<Rightarrow>
          (case pending of
             Some p \<Rightarrow>
               if startswith line ''Frame:'' then
                 ebind (float_or_none (re_search width_pattern line)) (\<lambda>width.
                 ebind (float_or_none (re_search height_pattern line)) (\<lambda>height.
                 ebind (py_last (py_split CHR '','' line)) (\<lambda>colour_seg.
                   extract_loop None
                     (products @
                       [\<lparr>Manufacturer = ''CWS'', Frame_Color = py_strip colour_seg,
                         Series_ID = pending_Series_ID p,
                         Window_Style = pending_Window_Style p,
                         Width = width, Height = height\<rparr>])
                     lines)))
               else extract_loop pending products lines
           | None \<Rightarrow> extract_loop pending products lines))"

text \<open>The argument is what \<^verbatim>\<open>extract_text(pdf_path)\<close> did, \<open>None\<close> when it raised.\<close>

definition extract_invoice_data :: "string option \<Rightarrow> error + product list" where
  "extract_invoice_data extracted =
     (let text = (case extracted of None \<Rightarrow> [] | Some t \<Rightarrow> t)
      in extract_loop None [] (map py_strip (py_split newline text)))"

subsection \<open>Notions used to state the properties\<close>

text \<open>The lines the loop walks: \<^verbatim>\<open>[line.strip() for line in text.split('\n')]\<close>.\<close>

definition text_lines :: "string \<Rightarrow> string list" where
  "text_lines text = map py_strip (py_split newline text)"

text \<open>The pending value a description match \<open>m\<close> leaves in the slot.\<close>

definition pending_of :: "string list \<Rightarrow> pending" where
  "pending_of m =
     \<lparr>pending_Series_ID = py_strip (m ! 0) @ '' Series'',
      pending_Window_Style = py_strip (m ! 1)\<rparr>"

text \<open>The record a frame line gives with the pending value \<open>p\<close>, or the exception
  raised while building it.\<close>

definition frame_product :: "pending \<Rightarrow> string \<Rightarrow> error + product" where
  "frame_product p line =
     ebind (float_or_none (re_search width_pattern line)) (\<lambda>width.
     ebind (float_or_none (re_search height_pattern line)) (\<lambda>height.
       Inr \<lparr>Manufacturer = ''CWS'',
            Frame_Color = py_strip (last (py_split CHR '','' line)),
            Series_ID = pending_Series_ID p,
            Window_Style = pending_Window_Style p,
            Width = width, Height = height\<rparr>))"

text \<open>
  The spec's account of the pairing, written without the loop. Each stripped line is a
  description line (it leaves a pending value), a frame line (it begins with
  \<^verbatim>\<open>Frame:\<close> and is no description line) or neither; the lines that are neither
  are dropped. A record belongs to every description line that is directly followed, in
  what is left, by a frame line: no other description line has replaced it and no other
  frame line has used it up.
\<close>

datatype mark = is_Desc: Desc pending | Frame string

definition classify :: "string \<Rightarrow> mark option" where
  "classify line =
     (case match_items desc_pattern line of
        Some m \<Rightarrow> Some (Desc (pending_of m))
      | None \<Rightarrow> if startswith line ''Frame:'' then Some (Frame line) else None)"

definition marks :: "string list \<Rightarrow> mark list" where
  "marks ls = List.map_filter classify ls"

fun pairs :: "mark list \<Rightarrow> (pending \<times> string) list" where
  "pairs (Desc p # Frame f # ms) = (p, f) # pairs ms"
| "pairs (m # ms) = pairs ms"
| "pairs [] = []"

text \<open>The records of the pairs in order, or the first exception raised on the way.\<close>

fun collect :: "product list \<Rightarrow> (pending \<times> string) list \<Rightarrow> error + product list" where
  "collect products [] = Inr products"
| "collect products ((p, f) # ps) =
     ebind (frame_product p f) (\<lambda>r. collect (products @ [r]) ps)"

text \<open>A line the description pattern matches.\<close>

definition is_desc :: "string \<Rightarrow> bool" where
  "is_desc line \<longleftrightarrow> match_items desc_pattern line \<noteq> None"

text \<open>Two strings that differ at most in the case of ASCII letters.\<close>

definition case_equiv :: "string \<Rightarrow> string \<Rightarrow> bool" where
  "case_equiv s t \<longleftrightarrow> map ascii_lower s = map ascii_lower t"

text \<open>The substrings of \<open>s\<close> at the given (start, length) positions.\<close>

definition slices :: "string \<Rightarrow> (nat \<times> nat) list \<Rightarrow> string list" where
  "slices s sp = map (\<lambda>(i, n). take n (drop i s)) sp"

text \<open>A character class that does not tell the two cases of a letter apart.\<close>

definition ci_class :: "(char \<Rightarrow> bool) \<Rightarrow> bool" where
  "ci_class P \<longleftrightarrow> (\<forall>c c'. ascii_lower c = ascii_lower c' \<longrightarrow> P c = P c')"

section \<open>Properties\<close>

subsection \<open>Splitting, stripping and matching\<close>


lemma py_split_not_Nil: "py_split sep s \<noteq> []"
  by (induction s) (auto split: list.splits)

lemma py_last_split: "py_last (py_split sep s) = Inr (last (py_split sep s))"
  using py_split_not_Nil [of sep s] by (simp add: py_last_def split: list.splits)

lemma py_split_chars: "\<forall>l\<in>set (py_split sep s). set l \<subseteq> set s"
  by (induction s) (auto split: if_splits list.splits)

lemma py_split_no_sep: "sep \<notin> set s \<Longrightarrow> py_split sep s = [s]"
  by (induction s) auto

lemma py_split_append: "sep \<notin> set a \<Longrightarrow> py_split sep (a @ sep # b) = a # py_split sep b"
  by (induction a) (auto split: list.splits)

lemma py_strip_all_space:
  assumes "\<forall>c\<in>set s. is_space c"
  shows "py_strip s = []"
  using assms by (auto simp: py_strip_def dest: set_dropWhileD)

lemma first_some_SomeD: "first_some f ks = Some r \<Longrightarrow> \<exists>k\<in>set ks. f k = Some r"
  by (induction ks) (auto split: option.splits)

lemma first_some_Nil_iff: "first_some f ks = None \<longleftrightarrow> (\<forall>k\<in>set ks. f k = None)"
  by (induction ks) (auto split: option.splits)

lemma match_items_length:
  "match_items its s = Some gs \<Longrightarrow> length gs = length (filter capture its)"
proof (induction its arbitrary: s gs)
  case Nil
  then show ?case by simp
next
  case (Cons it its)
  from Cons.prems obtain k where
    "(case match_items its (drop k s) of None \<Rightarrow> None
      | Some gs' \<Rightarrow> Some (if capture it then take k s # gs' else gs')) = Some gs"
    by (auto dest: first_some_SomeD)
  then obtain gs' where m: "match_items its (drop k s) = Some gs'"
    and gs: "gs = (if capture it then take k s # gs' else gs')"
    by (auto split: option.splits)
  from Cons.IH [OF m] gs show ?case by simp
qed

lemma desc_pattern_groups: "length (filter capture desc_pattern) = 4"
  by (simp add: desc_pattern_def ws_plus_def ws_star_def ilit_def)

lemma num_pattern_groups: "length (filter capture (num_pattern key)) = 1"
  by (simp add: num_pattern_def ws_star_def lit_def filter_map comp_def)

lemma desc_match_groups:
  assumes "match_items desc_pattern line = Some m"
  obtains g1 g2 g3 g4 where "m = [g1, g2, g3, g4]"
proof -
  have "length m = 4"
    using match_items_length [OF assms] desc_pattern_groups by simp
  then obtain g1 g2 g3 g4 where "m = [g1, g2, g3, g4]"
    by (auto simp: length_Suc_conv numeral_eq_Suc)
  then show ?thesis ..
qed

lemma match_first_class:
  assumes "lo it > 0" "s = [] \<or> \<not> cls it (hd s)"
  shows "match_items (it # its) s = None"
proof -
  have "takeWhile (cls it) s = []" using assms(2) by (cases s) auto
  then have "candidates it s = []"
    using assms(1) by (auto simp: candidates_def Let_def split: option.splits)
  then show ?thesis by simp
qed

lemma desc_pattern_first: "desc_pattern = Item is_digit 4 (Some 4) True True # tl desc_pattern"
  by (simp add: desc_pattern_def)

lemma desc_no_match_Nil: "match_items desc_pattern [] = None"
  by (subst desc_pattern_first) (rule match_first_class, simp_all)

lemma frame_not_desc:
  assumes "startswith line ''Frame:''"
  shows "match_items desc_pattern line = None"
proof -
  from assms obtain rest where "line = CHR ''F'' # rest"
    by (cases line) (auto simp: startswith_def)
  then show ?thesis
    by (subst desc_pattern_first) (rule match_first_class, simp_all add: is_digit_def)
qed

subsection \<open>One pass of the loop\<close>

lemma parse_loop_blank: "parse_loop pending products ([] # lines) = parse_loop pending products lines"
  by simp

lemma parse_loop_desc:
  assumes "match_items desc_pattern line = Some m"
  shows "parse_loop pending products (line # lines) = parse_loop (Some (pending_of m)) products lines"
proof -
  obtain g1 g2 g3 g4 where m: "m = [g1, g2, g3, g4]"
    using assms by (rule desc_match_groups)
  have "line \<noteq> []" using assms desc_no_match_Nil by auto
  then show ?thesis
    using assms by (simp add: m group_def ebind_def pending_of_def)
qed

lemma parse_loop_other:
  assumes "match_items desc_pattern line = None" "pending = None \<or> \<not> startswith line ''Frame:''"
  shows "parse_loop pending products (line # lines) = parse_loop pending products lines"
  using assms by (auto split: option.splits)

lemma parse_loop_frame:
  assumes "startswith line ''Frame:''"
  shows "parse_loop (Some p) products (line # lines) =
         ebind (frame_product p line) (\<lambda>r. parse_loop None (products @ [r]) lines)"
proof -
  have "line \<noteq> []" using assms by (auto simp: startswith_def)
  moreover have "match_items desc_pattern line = None"
    using assms by (rule frame_not_desc)
  ultimately show ?thesis
    using assms
    by (simp add: frame_product_def py_last_split ebind_def split: sum.splits)
qed

lemma extract_loop_eq: "extract_loop pending products lines = parse_loop pending products lines"
proof (induction lines arbitrary: pending products)
  case Nil
  show ?case by simp
next
  case (Cons line lines)
  show ?case
    by (simp add: Cons.IH ebind_def split: option.splits sum.splits)
qed

declare parse_loop.simps(2) [simp del] extract_loop.simps(2) [simp del] re_search.simps [simp del]

lemma parse_text_lines: "parse_products_from_text text = parse_loop None [] (text_lines text)"
  by (simp add: parse_products_from_text_def text_lines_def)

lemma parse_loop_no_desc:
  assumes "\<forall>l\<in>set lines. l = [] \<or> match_items desc_pattern l = None"
  shows "parse_loop None products lines = Inr products"
  using assms
proof (induction lines)
  case Nil
  show ?case by simp
next
  case (Cons line lines)
  then show ?case
    by (cases "line = []") (simp_all add: parse_loop_other parse_loop_blank)
qed

subsection \<open>The two copies of the scan\<close>

text \<open>
  C9. The scan written out in app.py and the one in server.py are the same function of
  the extracted text: whatever pdfminer did on the file, \<^verbatim>\<open>extract_invoice_data\<close>
  returns what \<^verbatim>\<open>parse_products_from_text\<close> returns on the text that
  \<^verbatim>\<open>extract_text_from_pdf\<close> hands over: the same records in the same order, or
  the same exception.
\<close>

theorem scans_agree:
  "extract_invoice_data extracted = parse_products_from_text (extract_text_from_pdf extracted)"
  by (simp add: extract_invoice_data_def parse_products_from_text_def
      extract_text_from_pdf_def extract_loop_eq)

subsection \<open>Blank input\<close>

text \<open>
  C8. The empty text gives the empty list of records and no exception, and so does every
  text made of white space only, that is, every text whose lines are all empty or blank.
\<close>

theorem blank_text_no_products:
  "parse_products_from_text [] = Inr [] \<and>
   ((\<forall>c\<in>set text. is_space c) \<longrightarrow> parse_products_from_text text = Inr [])"
proof -
  have ws_only: "parse_products_from_text t = Inr []" if "\<forall>c\<in>set t. is_space c" for t
  proof -
    have "\<forall>l\<in>set (text_lines t). l = []"
      using that py_split_chars [of newline t]
      by (auto simp: text_lines_def intro!: py_strip_all_space)
    then show ?thesis
      by (simp add: parse_text_lines parse_loop_no_desc)
  qed
  have "parse_products_from_text [] = Inr []"
    by (rule ws_only) simp
  moreover have "(\<forall>c\<in>set text. is_space c) \<longrightarrow> parse_products_from_text text = Inr []"
    using ws_only by blast
  ultimately show ?thesis ..
qed

theorem blank_text_no_products_witness:
  "parse_products_from_text '' \<newline>\<newline>  \<newline>'' = Inr []"
proof -
  have ws: "\<forall>c\<in>set '' \<newline>\<newline>  \<newline>''. is_space c"
    by (simp add: is_space_def)
  note inst = blank_text_no_products [of "'' \<newline>\<newline>  \<newline>''"]
  from inst [THEN conjunct2, THEN mp, OF ws] show ?thesis .
qed

subsection \<open>Frame lines with nothing pending\<close>

lemma parse_loop_frame_no_pending:
  assumes "startswith line ''Frame:''"
  shows "parse_loop None products (line # lines) = parse_loop None products lines"
  by (rule parse_loop_other) (simp_all add: frame_not_desc [OF assms])

lemma frames_not_desc:
  assumes "\<forall>l\<in>set ls. l = [] \<or> startswith l ''Frame:''"
  shows "\<forall>l\<in>set ls. l = [] \<or> match_items desc_pattern l = None"
proof
  fix l assume "l \<in> set ls"
  with assms have "l = [] \<or> startswith l ''Frame:''" by (rule bspec)
  then show "l = [] \<or> match_items desc_pattern l = None"
  proof
    assume "l = []"
    then show ?thesis ..
  next
    assume "startswith l ''Frame:''"
    then have "match_items desc_pattern l = None" by (rule frame_not_desc)
    then show ?thesis ..
  qed
qed

text \<open>
  C5. With the slot empty, a line that begins with \<^verbatim>\<open>Frame:\<close> changes neither the slot
  nor the records and raises nothing, whatever follows \<^verbatim>\<open>Frame:\<close> on it: the loop goes
  on as if the line were not there. A text whose non-empty stripped lines all begin with
  \<^verbatim>\<open>Frame:\<close> gives the empty list of records.
\<close>

theorem frame_without_pending_ignored:
  "(startswith line ''Frame:'' \<longrightarrow>
      parse_loop None products (line # lines) = parse_loop None products lines) \<and>
   ((\<forall>l\<in>set (text_lines text). l = [] \<or> startswith l ''Frame:'') \<longrightarrow>
      parse_products_from_text text = Inr [])"
proof (intro conjI impI)
  assume "startswith line ''Frame:''"
  then show "parse_loop None products (line # lines) = parse_loop None products lines"
    by (rule parse_loop_frame_no_pending)
next
  assume "\<forall>l\<in>set (text_lines text). l = [] \<or> startswith l ''Frame:''"
  then have "\<forall>l\<in>set (text_lines text). l = [] \<or> match_items desc_pattern l = None"
    by (rule frames_not_desc)
  then have "parse_loop None [] (text_lines text) = Inr []"
    by (rule parse_loop_no_desc)
  then show "parse_products_from_text text = Inr []"
    by (simp only: parse_text_lines)
qed

lemma frames_only_lines:
  "text_lines ''Frame: Width = 1.2.3, Red\<newline>  Frame: Width = 73, Height = 36.5, Bronze'' =
     [''Frame: Width = 1.2.3, Red'', ''Frame: Width = 73, Height = 36.5, Bronze'']"
  by code_simp

theorem frame_without_pending_ignored_witness:
  "parse_loop None [] [''Frame: Width = ., Red''] = Inr [] \<and>
   parse_products_from_text
     ''Frame: Width = 1.2.3, Red\<newline>  Frame: Width = 73, Height = 36.5, Bronze'' = Inr []"
proof -
  have h1: "startswith ''Frame: Width = ., Red'' ''Frame:''"
    by (simp add: startswith_def)
  have h2: "\<forall>l\<in>set (text_lines ''Frame: Width = 1.2.3, Red\<newline>  Frame: Width = 73, Height = 36.5, Bronze'').
      l = [] \<or> startswith l ''Frame:''"
    by (simp add: frames_only_lines startswith_def)
  have h3: "parse_loop None [] [] = Inr ([] :: product list)"
    by simp
  note inst = frame_without_pending_ignored
    [of "''Frame: Width = ., Red''" "[]" "[]"
        "''Frame: Width = 1.2.3, Red\<newline>  Frame: Width = 73, Height = 36.5, Bronze''"]
  have c1: "parse_loop None [] [''Frame: Width = ., Red''] = Inr []"
    using inst [THEN conjunct1, THEN mp, OF h1] h3 by (rule trans)
  note c2 = inst [THEN conjunct2, THEN mp, OF h2]
  from c1 c2 show ?thesis by (rule conjI)
qed

subsection \<open>Malformed numbers on a paired frame line\<close>

lemma float_or_none_None: "float_or_none None = Inr None"
  by (simp add: float_or_none_def)

lemma float_or_none_Some: "float_or_none (Some [g]) = ebind (py_float g) (\<lambda>v. Inr (Some v))"
  by (simp add: float_or_none_def group_def ebind_def)

lemma ebind_Inl: "ebind (Inl e) f = Inl e"
  by (simp add: ebind_def)

lemma ebind_Inr: "ebind (Inr x) f = f x"
  by (simp add: ebind_def)

lemma parse_loop_Nil: "parse_loop pending products [] = Inr products"
  by simp

lemma bad_width_lines:
  "text_lines ''7300 Series Direct Set Half Round 73 x 36 1/2 - FLANGE\<newline>Frame: Width = 7.3.0, Height = 36.5, Bronze'' =
     [''7300 Series Direct Set Half Round 73 x 36 1/2 - FLANGE'',
      ''Frame: Width = 7.3.0, Height = 36.5, Bronze'']"
  by code_simp

lemma example_desc_match:
  "match_items desc_pattern ''7300 Series Direct Set Half Round 73 x 36 1/2 - FLANGE'' =
     Some [''7300'', ''Direct Set Half Round'', ''73 '', ''36 1/2 '']"
  by code_simp

lemma bad_width_search:
  "re_search width_pattern ''Frame: Width = 7.3.0, Height = 36.5, Bronze'' = Some [''7.3.0'']"
  by code_simp

lemma bad_width_float: "py_float ''7.3.0'' = Inl ValueError"
  by (simp add: py_float_def is_digit_def)

text \<open>
  C1. The claim is that the extractor returns normally on every text. The code calls
  \<^verbatim>\<open>float\<close> on whatever \<^verbatim>\<open>([\d\.]+)\<close> captured, and that group also matches
  strings that are no decimal number: on a paired frame line reading
  \<^verbatim>\<open>Width = 7.3.0\<close> the call raises ValueError, which nothing catches, so no list
  of records is returned at all.
\<close>

theorem malformed_width_raises:
  "parse_products_from_text
     ''7300 Series Direct Set Half Round 73 x 36 1/2 - FLANGE\<newline>Frame: Width = 7.3.0, Height = 36.5, Bronze'' =
   Inl ValueError"
proof -
  have frame: "startswith ''Frame: Width = 7.3.0, Height = 36.5, Bronze'' ''Frame:''"
    by (simp add: startswith_def)
  have "frame_product p ''Frame: Width = 7.3.0, Height = 36.5, Bronze'' = Inl ValueError" for p
    by (simp only: frame_product_def bad_width_search float_or_none_Some bad_width_float ebind_Inl)
  then show ?thesis
    by (simp only: parse_text_lines bad_width_lines parse_loop_desc [OF example_desc_match]
        parse_loop_frame [OF frame] ebind_Inl)
qed

subsection \<open>The loop pairs each description line with the frame line next to it\<close>

lemma classify_Nil: "classify [] = None"
  by (simp add: classify_def desc_no_match_Nil startswith_def)

lemma marks_Nil: "marks [] = []"
  by (simp add: marks_def)

lemma marks_Cons:
  "marks (l # ls) = (case classify l of None \<Rightarrow> marks ls | Some m \<Rightarrow> m # marks ls)"
  by (simp add: marks_def split: option.splits)

lemma pairs_Frame: "pairs (Frame f # ms) = pairs ms"
  by simp

lemma pairs_Desc_Desc: "pairs (Desc p # Desc q # ms) = pairs (Desc q # ms)"
  by simp

lemma pairs_Desc_Nil: "pairs [Desc p] = []"
  by simp

lemma parse_loop_pairs:
  "parse_loop pending products ls =
     collect products
       (pairs (case pending of None \<Rightarrow> marks ls | Some p \<Rightarrow> Desc p # marks ls))"
proof (induction ls arbitrary: pending products)
  case Nil
  show ?case by (cases pending) (simp_all add: marks_Nil)
next
  case (Cons line ls)
  show ?case
  proof (cases "match_items desc_pattern line")
    case (Some m)
    then have c: "classify line = Some (Desc (pending_of m))"
      by (simp add: classify_def)
    show ?thesis
      by (cases pending) (simp_all add: parse_loop_desc [OF Some] Cons.IH marks_Cons c)
  next
    case None
    show ?thesis
    proof (cases "startswith line ''Frame:''")
      case True
      then have c: "classify line = Some (Frame line)"
        by (simp add: classify_def None)
      show ?thesis
      proof (cases pending)
        case None
        then show ?thesis
          by (simp add: parse_loop_frame_no_pending [OF True] Cons.IH marks_Cons c)
      next
        case (Some p)
        then show ?thesis
          by (simp add: parse_loop_frame [OF True] Cons.IH marks_Cons c)
      qed
    next
      case False
      then have c: "classify line = None"
        by (simp add: classify_def None)
      have "parse_loop pending products (line # ls) = parse_loop pending products ls"
        using None False by (simp add: parse_loop_other)
      then show ?thesis
        by (cases pending) (simp_all add: Cons.IH marks_Cons c)
    qed
  qed
qed

lemma collect_Inr:
  "collect products prs = Inr out \<Longrightarrow>
   \<exists>rs. out = products @ rs \<and> list_all2 (\<lambda>r (p, f). frame_product p f = Inr r) rs prs"
proof (induction prs arbitrary: products out)
  case Nil
  then show ?case by simp
next
  case (Cons pf prs)
  obtain p f where pf: "pf = (p, f)" by (cases pf)
  from Cons.prems obtain r where r: "frame_product p f = Inr r"
    and rest: "collect (products @ [r]) prs = Inr out"
    by (auto simp: pf ebind_def split: sum.splits)
  from Cons.IH [OF rest] obtain rs where "out = (products @ [r]) @ rs"
    and "list_all2 (\<lambda>r (p, f). frame_product p f = Inr r) rs prs"
    by blast
  then have "out = products @ (r # rs) \<and>
      list_all2 (\<lambda>r (p, f). frame_product p f = Inr r) (r # rs) (pf # prs)"
    by (simp add: pf r)
  then show ?case by blast
qed

lemma parse_text_pairs:
  assumes "parse_products_from_text text = Inr ps"
  shows "list_all2 (\<lambda>r (p, f). frame_product p f = Inr r) ps (pairs (marks (text_lines text)))"
proof -
  have "collect [] (pairs (marks (text_lines text))) = Inr ps"
    using assms by (simp add: parse_text_lines parse_loop_pairs)
  from collect_Inr [OF this] show ?thesis by simp
qed

lemma length_pairs: "length (pairs ms) \<le> length (filter is_Desc ms)"
  by (induction ms rule: pairs.induct) simp_all

lemma length_Desc_marks: "length (filter is_Desc (marks ls)) = length (filter is_desc ls)"
proof (induction ls)
  case Nil
  show ?case by (simp add: marks_Nil)
next
  case (Cons l ls)
  show ?case
  proof (cases "match_items desc_pattern l")
    case None
    then show ?thesis
      by (simp add: marks_Cons classify_def is_desc_def Cons.IH)
  next
    case (Some m)
    then show ?thesis
      by (simp add: marks_Cons classify_def is_desc_def Cons.IH)
  qed
qed

lemma frame_product_color:
  "frame_product p f = Inr r \<Longrightarrow> Frame_Color r = py_strip (last (py_split CHR '','' f))"
  by (auto simp: frame_product_def ebind_def split: sum.splits)

lemma frame_product_pending:
  "frame_product p f = Inr r \<Longrightarrow>
   Manufacturer r = ''CWS'' \<and> Series_ID r = pending_Series_ID p \<and>
   Window_Style r = pending_Window_Style p"
  by (auto simp: frame_product_def ebind_def split: sum.splits)

text \<open>
  Whenever the extractor returns, its records are, in order, the records of the
  description lines that are directly followed by a frame line once the lines that are
  neither are left out: one record for each such pair and no other record. A
  description line replaced by a later one before any frame line has no record, a frame
  line uses up the pending description, so a second frame line finds none. The number
  of records is therefore at most the number of lines the description pattern matches.
  Nothing is said here about a call that raises.
\<close>

lemma returned_records_are_pairs:
  assumes "parse_products_from_text text = Inr ps"
  shows "list_all2 (\<lambda>r (p, f). frame_product p f = Inr r) ps
           (pairs (marks (text_lines text))) \<and>
         length ps \<le> length (filter is_desc (text_lines text))"
proof -
  have rel: "list_all2 (\<lambda>r (p, f). frame_product p f = Inr r) ps
      (pairs (marks (text_lines text)))"
    using assms by (rule parse_text_pairs)
  then have "length ps = length (pairs (marks (text_lines text)))"
    by (rule list_all2_lengthD)
  also have "\<dots> \<le> length (filter is_Desc (marks (text_lines text)))"
    by (rule length_pairs)
  also have "\<dots> = length (filter is_desc (text_lines text))"
    by (rule length_Desc_marks)
  finally show ?thesis using rel by simp
qed

text \<open>
  C7. Whenever the extractor returns, the Frame Color of every record is the last
  comma-separated piece of the stripped frame line it was paired with, stripped in
  turn; when that piece is empty or all white space the record is there all the same,
  with the empty string as its Frame Color.
\<close>

theorem frame_color_is_last_segment:
  assumes "parse_products_from_text text = Inr ps"
  shows "list_all2
           (\<lambda>r (p, f). Frame_Color r = py_strip (last (py_split CHR '','' f)) \<and>
              (list_all is_space (last (py_split CHR '','' f)) \<longrightarrow> Frame_Color r = []))
           ps (pairs (marks (text_lines text)))"
proof -
  have "Frame_Color r = py_strip (last (py_split CHR '','' f)) \<and>
      (list_all is_space (last (py_split CHR '','' f)) \<longrightarrow> Frame_Color r = [])"
    if "frame_product p f = Inr r" for r p f
    using frame_product_color [OF that]
    by (simp add: py_strip_all_space list_all_iff)
  then show ?thesis
    using parse_text_pairs [OF assms]
    by (auto elim!: list_all2_mono)
qed

subsection \<open>Texts of two and three lines\<close>

lemma text_lines_two:
  assumes "newline \<notin> set a" "newline \<notin> set b"
  shows "text_lines (a @ newline # b) = [py_strip a, py_strip b]"
  using assms by (simp add: text_lines_def py_split_append py_split_no_sep)

lemma text_lines_three:
  assumes "newline \<notin> set a" "newline \<notin> set b" "newline \<notin> set c"
  shows "text_lines (a @ newline # b @ newline # c) = [py_strip a, py_strip b, py_strip c]"
  using assms by (simp add: text_lines_def py_split_append py_split_no_sep)

lemma digit_not_space: "is_digit c \<Longrightarrow> \<not> is_space c"
  by (auto simp: is_digit_def is_space_def)

lemma dropWhile_none: "\<forall>c\<in>set xs. \<not> P c \<Longrightarrow> dropWhile P xs = xs"
  by (cases xs) auto

lemma py_strip_digits:
  assumes "list_all is_digit s"
  shows "py_strip s = s"
proof -
  have ns: "\<forall>c\<in>set s. \<not> is_space c"
    using assms by (auto simp: list_all_iff dest: digit_not_space)
  then have "\<forall>c\<in>set (rev s). \<not> is_space c" by simp
  then have "dropWhile is_space (rev s) = rev s" by (rule dropWhile_none)
  moreover have "dropWhile is_space s = s" using ns by (rule dropWhile_none)
  ultimately show ?thesis by (simp add: py_strip_def)
qed

lemma take_takeWhile_all:
  assumes "k \<le> length (takeWhile P s)"
  shows "list_all P (take k s)"
proof -
  have "take k s = take k (takeWhile P s @ dropWhile P s)" by simp
  also have "\<dots> = take k (takeWhile P s)" using assms by (simp del: takeWhile_dropWhile_id)
  finally have "set (take k s) \<subseteq> set (takeWhile P s)" by (simp add: set_take_subset)
  then show ?thesis by (auto simp: list_all_iff dest: set_takeWhileD)
qed

lemma desc_group1:
  assumes "match_items desc_pattern line = Some (g1 # gs)"
  shows "g1 = take 4 line \<and> list_all is_digit g1 \<and> length g1 = 4"
proof -
  let ?n = "length (takeWhile is_digit line)"
  have cand: "candidates (Item is_digit 4 (Some 4) True True) line = (if 4 \<le> ?n then [4] else [])"
    by (auto simp: candidates_def Let_def min_def upt_rec numeral_eq_Suc)
  from assms have m: "match_items (Item is_digit 4 (Some 4) True True # tl desc_pattern) line
      = Some (g1 # gs)"
    using desc_pattern_first by simp
  then have n: "4 \<le> ?n" and g1: "g1 = take 4 line"
    by (auto simp: cand split: if_splits option.splits)
  have "list_all is_digit (take 4 line)" using n by (rule take_takeWhile_all)
  moreover have "4 \<le> length line"
    using n length_takeWhile_le [of is_digit line] by linarith
  ultimately show ?thesis using g1 by simp
qed

lemma frame_product_Inr:
  assumes "float_or_none (re_search width_pattern line) = Inr w"
    and "float_or_none (re_search height_pattern line) = Inr h"
  shows "frame_product p line =
     Inr \<lparr>Manufacturer = ''CWS'', Frame_Color = py_strip (last (py_split CHR '','' line)),
          Series_ID = pending_Series_ID p, Window_Style = pending_Window_Style p,
          Width = w, Height = h\<rparr>"
  by (simp add: frame_product_def assms ebind_Inr)

lemma float_or_none_value:
  assumes "py_float g = Inr v"
  shows "float_or_none (Some [g]) = Inr (Some v)"
  by (simp add: float_or_none_Some assms ebind_Inr)

lemma parse_loop_desc_frame:
  assumes "match_items desc_pattern d = Some m"
    and "startswith f ''Frame:''"
    and "frame_product (pending_of m) f = Inr r"
  shows "parse_loop pending products (d # f # lines) = parse_loop None (products @ [r]) lines"
  by (simp add: parse_loop_desc [OF assms(1)] parse_loop_frame [OF assms(2)] assms(3) ebind_Inr)

text \<open>
  C2. A text of two lines, the first a description line and the second a frame line
  whose Width and Height tokens are numbers, gives exactly one record: Manufacturer
  CWS, Frame Color the stripped last comma-separated piece of the stripped frame line,
  Series ID the first group followed by \<^verbatim>\<open> Series\<close>, where the first group is the
  first four characters of the stripped description line and they are digits, Window
  Style the stripped second group, Width and Height the values of the tokens after
  \<^verbatim>\<open>Width =\<close> and \<^verbatim>\<open>Height =\<close>.
\<close>

theorem description_then_frame:
  assumes "newline \<notin> set d" and "newline \<notin> set f"
    and "match_items desc_pattern (py_strip d) = Some [g1, g2, g3, g4]"
    and "startswith (py_strip f) ''Frame:''"
    and "re_search width_pattern (py_strip f) = Some [gw]" and "py_float gw = Inr w"
    and "re_search height_pattern (py_strip f) = Some [gh]" and "py_float gh = Inr h"
  shows "parse_products_from_text (d @ newline # f) =
           Inr [\<lparr>Manufacturer = ''CWS'',
                 Frame_Color = py_strip (last (py_split CHR '','' (py_strip f))),
                 Series_ID = g1 @ '' Series'', Window_Style = py_strip g2,
                 Width = Some w, Height = Some h\<rparr>] \<and>
         g1 = take 4 (py_strip d) \<and> list_all is_digit g1"
proof -
  have tk: "g1 = take 4 (py_strip d)" and dg: "list_all is_digit g1"
    using desc_group1 [OF assms(3)] by blast+
  have pend: "pending_of [g1, g2, g3, g4] =
      \<lparr>pending_Series_ID = g1 @ '' Series'', pending_Window_Style = py_strip g2\<rparr>"
    by (simp add: pending_of_def py_strip_digits [OF dg])
  have "frame_product (pending_of [g1, g2, g3, g4]) (py_strip f) =
      Inr \<lparr>Manufacturer = ''CWS'',
           Frame_Color = py_strip (last (py_split CHR '','' (py_strip f))),
           Series_ID = g1 @ '' Series'', Window_Style = py_strip g2,
           Width = Some w, Height = Some h\<rparr>"
    by (simp add: frame_product_Inr assms(5,7) float_or_none_value [OF assms(6)]
        float_or_none_value [OF assms(8)] pend)
  from parse_loop_desc_frame [OF assms(3,4) this]
  have "parse_products_from_text (d @ newline # f) =
           Inr [\<lparr>Manufacturer = ''CWS'',
                 Frame_Color = py_strip (last (py_split CHR '','' (py_strip f))),
                 Series_ID = g1 @ '' Series'', Window_Style = py_strip g2,
                 Width = Some w, Height = Some h\<rparr>]"
    by (simp add: parse_text_lines text_lines_two [OF assms(1,2)])
  with tk dg show ?thesis by blast
qed

text \<open>
  C4. A text of three lines, two description lines and then a frame line on which
  \<^verbatim>\<open>float\<close> does not raise, gives exactly one record, and its Series ID and Window
  Style are those of the second description line; nothing of the first one is left.
\<close>

theorem second_description_wins:
  assumes "newline \<notin> set d1" and "newline \<notin> set d2" and "newline \<notin> set f"
    and "match_items desc_pattern (py_strip d1) = Some m1"
    and "match_items desc_pattern (py_strip d2) = Some [g1, g2, g3, g4]"
    and "startswith (py_strip f) ''Frame:''"
    and "float_or_none (re_search width_pattern (py_strip f)) = Inr w"
    and "float_or_none (re_search height_pattern (py_strip f)) = Inr h"
  shows "parse_products_from_text (d1 @ newline # d2 @ newline # f) =
           Inr [\<lparr>Manufacturer = ''CWS'',
                 Frame_Color = py_strip (last (py_split CHR '','' (py_strip f))),
                 Series_ID = g1 @ '' Series'', Window_Style = py_strip g2,
                 Width = w, Height = h\<rparr>]"
proof -
  have dg: "list_all is_digit g1"
    using desc_group1 [OF assms(5)] by blast
  have pend: "pending_of [g1, g2, g3, g4] =
      \<lparr>pending_Series_ID = g1 @ '' Series'', pending_Window_Style = py_strip g2\<rparr>"
    by (simp add: pending_of_def py_strip_digits [OF dg])
  have "frame_product (pending_of [g1, g2, g3, g4]) (py_strip f) =
      Inr \<lparr>Manufacturer = ''CWS'',
           Frame_Color = py_strip (last (py_split CHR '','' (py_strip f))),
           Series_ID = g1 @ '' Series'', Window_Style = py_strip g2,
           Width = w, Height = h\<rparr>"
    by (simp add: frame_product_Inr [OF assms(7,8)] pend)
  from parse_loop_desc_frame [OF assms(5,6) this]
  show ?thesis
    by (simp add: parse_text_lines text_lines_three [OF assms(1,2,3)]
        parse_loop_desc [OF assms(4)])
qed

theorem description_then_frame_witness:
  "parse_products_from_text
     ''7300 Series Direct Set Half Round 73 x 36 1/2 - FLANGE\<newline>Frame: Width = 73, Height = 36.5, Radius = 36.5, Bronze'' =
   Inr [\<lparr>Manufacturer = ''CWS'', Frame_Color = ''Bronze'', Series_ID = ''7300 Series'',
         Window_Style = ''Direct Set Half Round'', Width = Some 73, Height = Some (73 / 2)\<rparr>]"
proof -
  let ?d = "''7300 Series Direct Set Half Round 73 x 36 1/2 - FLANGE''"
  let ?f = "''Frame: Width = 73, Height = 36.5, Radius = 36.5, Bronze''"
  have h1: "newline \<notin> set ?d" by (simp add: newline_def)
  have h2: "newline \<notin> set ?f" by (simp add: newline_def)
  have h3: "match_items desc_pattern (py_strip ?d) =
      Some [''7300'', ''Direct Set Half Round'', ''73 '', ''36 1/2 '']"
    by code_simp
  have h4: "startswith (py_strip ?f) ''Frame:''" by code_simp
  have h5: "re_search width_pattern (py_strip ?f) = Some [''73'']" by code_simp
  have h6: "py_float ''73'' = Inr 73" by (simp add: py_float_def digits_val_def is_digit_def)
  have h7: "re_search height_pattern (py_strip ?f) = Some [''36.5'']" by code_simp
  have h8: "py_float ''36.5'' = Inr (73 / 2)"
    by (simp add: py_float_def digits_val_def is_digit_def)
  have colour: "py_strip (last (py_split CHR '','' (py_strip ?f))) = ''Bronze''" by code_simp
  have style: "py_strip ''Direct Set Half Round'' = ''Direct Set Half Round''" by code_simp
  from description_then_frame [OF h1 h2 h3 h4 h5 h6 h7 h8, THEN conjunct1]
  show ?thesis by (simp add: newline_def colour style)
qed

theorem second_description_wins_witness:
  "parse_products_from_text
     ''7300 Series Direct Set Half Round 73 x 36 1/2 - FLANGE\<newline>8100 series Single Hung 30 X 60 1/2 - NAIL FIN\<newline>Frame: Width = 30, Height = 60.5, White'' =
   Inr [\<lparr>Manufacturer = ''CWS'', Frame_Color = ''White'', Series_ID = ''8100 Series'',
         Window_Style = ''Single Hung'', Width = Some 30, Height = Some (121 / 2)\<rparr>]"
proof -
  let ?d1 = "''7300 Series Direct Set Half Round 73 x 36 1/2 - FLANGE''"
  let ?d2 = "''8100 series Single Hung 30 X 60 1/2 - NAIL FIN''"
  let ?f = "''Frame: Width = 30, Height = 60.5, White''"
  have h1: "newline \<notin> set ?d1" by (simp add: newline_def)
  have h2: "newline \<notin> set ?d2" by (simp add: newline_def)
  have h3: "newline \<notin> set ?f" by (simp add: newline_def)
  have h4: "match_items desc_pattern (py_strip ?d1) =
      Some [''7300'', ''Direct Set Half Round'', ''73 '', ''36 1/2 '']"
    by code_simp
  have h5: "match_items desc_pattern (py_strip ?d2) =
      Some [''8100'', ''Single Hung'', ''30 '', ''60 1/2 '']"
    by code_simp
  have h6: "startswith (py_strip ?f) ''Frame:''" by code_simp
  have sw: "re_search width_pattern (py_strip ?f) = Some [''30'']" by code_simp
  have fw: "py_float ''30'' = Inr 30" by (simp add: py_float_def digits_val_def is_digit_def)
  have sh: "re_search height_pattern (py_strip ?f) = Some [''60.5'']" by code_simp
  have fh: "py_float ''60.5'' = Inr (121 / 2)"
    by (simp add: py_float_def digits_val_def is_digit_def)
  have h7: "float_or_none (re_search width_pattern (py_strip ?f)) = Inr (Some 30)"
    by (simp only: sw float_or_none_value [OF fw])
  have h8: "float_or_none (re_search height_pattern (py_strip ?f)) = Inr (Some (121 / 2))"
    by (simp only: sh float_or_none_value [OF fh])
  have colour: "py_strip (last (py_split CHR '','' (py_strip ?f))) = ''White''" by code_simp
  have style: "py_strip ''Single Hung'' = ''Single Hung''" by code_simp
  from second_description_wins [OF h1 h2 h3 h4 h5 h6 h7 h8]
  show ?thesis by (simp add: newline_def colour style)
qed

subsection \<open>Worked texts for the pairing and the colour\<close>

lemma returned_records_are_pairs_example:
  "list_all2 (\<lambda>r (p, f). frame_product p f = Inr r)
     [\<lparr>Manufacturer = ''CWS'', Frame_Color = ''White'', Series_ID = ''8100 Series'',
       Window_Style = ''Single Hung'', Width = Some 30, Height = Some (121 / 2)\<rparr>]
     (pairs (marks (text_lines
       ''7300 Series Direct Set Half Round 73 x 36 1/2 - FLANGE\<newline>8100 series Single Hung 30 X 60 1/2 - NAIL FIN\<newline>Frame: Width = 30, Height = 60.5, White\<newline>Frame: Width = 7, Red\<newline>Ship via truck\<newline>9000 Series Picture 48 x 48 - FLANGE''))) \<and>
   length
     [\<lparr>Manufacturer = ''CWS'', Frame_Color = ''White'', Series_ID = ''8100 Series'',
       Window_Style = ''Single Hung'', Width = Some 30, Height = Some (121 / 2)\<rparr>]
     \<le> length (filter is_desc (text_lines
       ''7300 Series Direct Set Half Round 73 x 36 1/2 - FLANGE\<newline>8100 series Single Hung 30 X 60 1/2 - NAIL FIN\<newline>Frame: Width = 30, Height = 60.5, White\<newline>Frame: Width = 7, Red\<newline>Ship via truck\<newline>9000 Series Picture 48 x 48 - FLANGE''))"
proof -
  let ?l1 = "''7300 Series Direct Set Half Round 73 x 36 1/2 - FLANGE''"
  let ?l2 = "''8100 series Single Hung 30 X 60 1/2 - NAIL FIN''"
  let ?l3 = "''Frame: Width = 30, Height = 60.5, White''"
  let ?l4 = "''Frame: Width = 7, Red''"
  let ?l5 = "''Ship via truck''"
  let ?l6 = "''9000 Series Picture 48 x 48 - FLANGE''"
  let ?text = "''7300 Series Direct Set Half Round 73 x 36 1/2 - FLANGE\<newline>8100 series Single Hung 30 X 60 1/2 - NAIL FIN\<newline>Frame: Width = 30, Height = 60.5, White\<newline>Frame: Width = 7, Red\<newline>Ship via truck\<newline>9000 Series Picture 48 x 48 - FLANGE''"
  have ls: "text_lines ?text = [?l1, ?l2, ?l3, ?l4, ?l5, ?l6]" by code_simp
  have m1: "match_items desc_pattern ?l1 =
      Some [''7300'', ''Direct Set Half Round'', ''73 '', ''36 1/2 '']"
    by code_simp
  have m2: "match_items desc_pattern ?l2 =
      Some [''8100'', ''Single Hung'', ''30 '', ''60 1/2 '']"
    by code_simp
  have s3: "startswith ?l3 ''Frame:''" by code_simp
  have s4: "startswith ?l4 ''Frame:''" by code_simp
  have n5: "match_items desc_pattern ?l5 = None" by code_simp
  have m6: "match_items desc_pattern ?l6 = Some [''9000'', ''Picture'', ''48 '', ''48 '']"
    by code_simp
  have sw: "re_search width_pattern ?l3 = Some [''30'']" by code_simp
  have fw: "py_float ''30'' = Inr 30" by (simp add: py_float_def digits_val_def is_digit_def)
  have sh: "re_search height_pattern ?l3 = Some [''60.5'']" by code_simp
  have fh: "py_float ''60.5'' = Inr (121 / 2)"
    by (simp add: py_float_def digits_val_def is_digit_def)
  have w: "float_or_none (re_search width_pattern ?l3) = Inr (Some 30)"
    by (simp only: sw float_or_none_value [OF fw])
  have h: "float_or_none (re_search height_pattern ?l3) = Inr (Some (121 / 2))"
    by (simp only: sh float_or_none_value [OF fh])
  have seg: "last (py_split CHR '','' ?l3) = '' White''" by code_simp
  have colour: "py_strip '' White'' = ''White''" by code_simp
  have id: "py_strip ''8100'' = ''8100''" by code_simp
  have style: "py_strip ''Single Hung'' = ''Single Hung''" by code_simp
  have fp: "frame_product (pending_of [''8100'', ''Single Hung'', ''30 '', ''60 1/2 '']) ?l3 =
      Inr \<lparr>Manufacturer = ''CWS'', Frame_Color = ''White'', Series_ID = ''8100 Series'',
           Window_Style = ''Single Hung'', Width = Some 30, Height = Some (121 / 2)\<rparr>"
    by (simp add: frame_product_Inr [OF w h] pending_of_def seg colour id style)
  have run: "parse_products_from_text ?text =
      Inr [\<lparr>Manufacturer = ''CWS'', Frame_Color = ''White'', Series_ID = ''8100 Series'',
           Window_Style = ''Single Hung'', Width = Some 30, Height = Some (121 / 2)\<rparr>]"
    by (simp only: parse_text_lines ls parse_loop_desc [OF m1]
        parse_loop_desc_frame [OF m2 s3 fp] parse_loop_frame_no_pending [OF s4]
        parse_loop_other [OF n5 disjI1 [OF refl]] parse_loop_desc [OF m6]
        parse_loop_Nil append_Nil)
  from returned_records_are_pairs [OF run] show ?thesis .
qed

theorem frame_color_is_last_segment_witness:
  "list_all2
     (\<lambda>r (p, f). Frame_Color r = py_strip (last (py_split CHR '','' f)) \<and>
        (list_all is_space (last (py_split CHR '','' f)) \<longrightarrow> Frame_Color r = []))
     [\<lparr>Manufacturer = ''CWS'', Frame_Color = [], Series_ID = ''7300 Series'',
       Window_Style = ''Direct Set Half Round'', Width = Some 73, Height = None\<rparr>]
     (pairs (marks (text_lines
       ''7300 Series Direct Set Half Round 73 x 36 1/2 - FLANGE\<newline>Frame: Width = 73, Bronze,  '')))"
proof -
  let ?d = "''7300 Series Direct Set Half Round 73 x 36 1/2 - FLANGE''"
  let ?f = "''Frame: Width = 73, Bronze,''"
  let ?text = "''7300 Series Direct Set Half Round 73 x 36 1/2 - FLANGE\<newline>Frame: Width = 73, Bronze,  ''"
  have ls: "text_lines ?text = [?d, ?f]" by code_simp
  have m: "match_items desc_pattern ?d =
      Some [''7300'', ''Direct Set Half Round'', ''73 '', ''36 1/2 '']"
    by code_simp
  have s: "startswith ?f ''Frame:''" by code_simp
  have sw: "re_search width_pattern ?f = Some [''73'']" by code_simp
  have fw: "py_float ''73'' = Inr 73" by (simp add: py_float_def digits_val_def is_digit_def)
  have sh: "re_search height_pattern ?f = None" by code_simp
  have w: "float_or_none (re_search width_pattern ?f) = Inr (Some 73)"
    by (simp only: sw float_or_none_value [OF fw])
  have h: "float_or_none (re_search height_pattern ?f) = Inr None"
    by (simp only: sh float_or_none_None)
  have seg: "last (py_split CHR '','' ?f) = []" by code_simp
  have colour: "py_strip [] = []" by code_simp
  have id: "py_strip ''7300'' = ''7300''" by code_simp
  have style: "py_strip ''Direct Set Half Round'' = ''Direct Set Half Round''" by code_simp
  have fp: "frame_product (pending_of [''7300'', ''Direct Set Half Round'', ''73 '', ''36 1/2 '']) ?f =
      Inr \<lparr>Manufacturer = ''CWS'', Frame_Color = [], Series_ID = ''7300 Series'',
           Window_Style = ''Direct Set Half Round'', Width = Some 73, Height = None\<rparr>"
    by (simp add: frame_product_Inr [OF w h] pending_of_def seg colour id style)
  have run: "parse_products_from_text ?text =
      Inr [\<lparr>Manufacturer = ''CWS'', Frame_Color = [], Series_ID = ''7300 Series'',
           Window_Style = ''Direct Set Half Round'', Width = Some 73, Height = None\<rparr>]"
    by (simp only: parse_text_lines ls parse_loop_desc_frame [OF m s fp]
        parse_loop_Nil append_Nil)
  from frame_color_is_last_segment [OF run] show ?thesis .
qed

subsection \<open>A frame line without Width or without Height\<close>

lemma match_lit:
  "match_items (lit k # its) s =
     (case s of [] \<Rightarrow> None | c # cs \<Rightarrow> if c = k then match_items its cs else None)"
proof (cases s)
  case Nil
  then show ?thesis by (simp add: lit_def candidates_def)
next
  case (Cons c cs)
  show ?thesis
  proof (cases "c = k")
    case True
    then have "candidates (lit k) s = [1]"
      by (simp add: Cons lit_def candidates_def is_char_def min_def)
    then show ?thesis
      by (simp add: Cons True lit_def split: option.splits)
  next
    case False
    then have "candidates (lit k) s = []"
      by (simp add: Cons lit_def candidates_def is_char_def)
    then show ?thesis by (simp add: Cons False)
  qed
qed

lemma match_lits:
  "match_items (map lit key @ its) s =
     (if prefix key s then match_items its (drop (length key) s) else None)"
proof (induction key arbitrary: s)
  case Nil
  show ?case by simp
next
  case (Cons k key)
  show ?case
    by (cases s) (simp_all add: match_lit Cons.IH del: match_items.simps(2))
qed

lemma num_pattern_needs_key:
  assumes "\<not> prefix key s" 
  shows "match_items (num_pattern key) s = None"
  using assms by (simp add: num_pattern_def match_lits)

lemma re_search_no_key:
  assumes "\<not> sublist key line"
  shows "re_search (num_pattern key) line = None"
  using assms
proof (induction line)
  case Nil
  then have "\<not> prefix key []" by auto
  then show ?case
    by (simp add: re_search.simps num_pattern_needs_key)
next
  case (Cons c cs)
  then have "\<not> prefix key (c # cs)" and "\<not> sublist key cs"
    by (auto simp: sublist_Cons_right)
  then show ?case
    by (simp add: re_search.simps num_pattern_needs_key Cons.IH)
qed

text \<open>
  C6. With a description pending, a line that begins with \<^verbatim>\<open>Frame:\<close>, has a number
  after \<^verbatim>\<open>Width =\<close> and nowhere contains \<^verbatim>\<open>Height =\<close> still adds its record: the
  Width is the value of the number, the Height is null, and the slot is cleared. The
  same holds with a number after \<^verbatim>\<open>Height =\<close> and no \<^verbatim>\<open>Width =\<close> on the line.
\<close>

theorem missing_height_or_width:
  "(startswith line ''Frame:'' \<and> \<not> sublist ''Height ='' line \<and>
    re_search width_pattern line = Some [gw] \<and> py_float gw = Inr w \<longrightarrow>
      parse_loop (Some p) products (line # lines) =
      parse_loop None
        (products @
          [\<lparr>Manufacturer = ''CWS'', Frame_Color = py_strip (last (py_split CHR '','' line)),
            Series_ID = pending_Series_ID p, Window_Style = pending_Window_Style p,
            Width = Some w, Height = None\<rparr>])
        lines) \<and>
   (startswith line' ''Frame:'' \<and> \<not> sublist ''Width ='' line' \<and>
    re_search height_pattern line' = Some [gh] \<and> py_float gh = Inr h \<longrightarrow>
      parse_loop (Some p') products' (line' # lines') =
      parse_loop None
        (products' @
          [\<lparr>Manufacturer = ''CWS'', Frame_Color = py_strip (last (py_split CHR '','' line')),
            Series_ID = pending_Series_ID p', Window_Style = pending_Window_Style p',
            Width = None, Height = Some h\<rparr>])
        lines')"
proof (intro conjI impI)
  assume a: "startswith line ''Frame:'' \<and> \<not> sublist ''Height ='' line \<and>
    re_search width_pattern line = Some [gw] \<and> py_float gw = Inr w"
  then have "re_search height_pattern line = None"
    by (simp add: height_pattern_def re_search_no_key)
  then have h: "float_or_none (re_search height_pattern line) = Inr None"
    by (simp add: float_or_none_None)
  have w: "float_or_none (re_search width_pattern line) = Inr (Some w)"
    using a by (simp add: float_or_none_value)
  from a show "parse_loop (Some p) products (line # lines) =
      parse_loop None
        (products @
          [\<lparr>Manufacturer = ''CWS'', Frame_Color = py_strip (last (py_split CHR '','' line)),
            Series_ID = pending_Series_ID p, Window_Style = pending_Window_Style p,
            Width = Some w, Height = None\<rparr>])
        lines"
    by (simp add: parse_loop_frame frame_product_Inr [OF w h] ebind_Inr)
next
  assume a: "startswith line' ''Frame:'' \<and> \<not> sublist ''Width ='' line' \<and>
    re_search height_pattern line' = Some [gh] \<and> py_float gh = Inr h"
  then have "re_search width_pattern line' = None"
    by (simp add: width_pattern_def re_search_no_key)
  then have w: "float_or_none (re_search width_pattern line') = Inr None"
    by (simp add: float_or_none_None)
  have h: "float_or_none (re_search height_pattern line') = Inr (Some h)"
    using a by (simp add: float_or_none_value)
  from a show "parse_loop (Some p') products' (line' # lines') =
      parse_loop None
        (products' @
          [\<lparr>Manufacturer = ''CWS'', Frame_Color = py_strip (last (py_split CHR '','' line')),
            Series_ID = pending_Series_ID p', Window_Style = pending_Window_Style p',
            Width = None, Height = Some h\<rparr>])
        lines'"
    by (simp add: parse_loop_frame frame_product_Inr [OF w h] ebind_Inr)
qed

theorem missing_height_or_width_witness:
  "parse_products_from_text
     ''7300 Series Direct Set Half Round 73 x 36 1/2 - FLANGE\<newline>Frame: Width = 73, Radius = 36.5, Bronze'' =
   Inr [\<lparr>Manufacturer = ''CWS'', Frame_Color = ''Bronze'', Series_ID = ''7300 Series'',
         Window_Style = ''Direct Set Half Round'', Width = Some 73, Height = None\<rparr>] \<and>
   parse_products_from_text
     ''7300 Series Direct Set Half Round 73 x 36 1/2 - FLANGE\<newline>Frame: Height = 36.5, Bronze'' =
   Inr [\<lparr>Manufacturer = ''CWS'', Frame_Color = ''Bronze'', Series_ID = ''7300 Series'',
         Window_Style = ''Direct Set Half Round'', Width = None, Height = Some (73 / 2)\<rparr>]"
proof -
  let ?d = "''7300 Series Direct Set Half Round 73 x 36 1/2 - FLANGE''"
  let ?m = "[''7300'', ''Direct Set Half Round'', ''73 '', ''36 1/2 '']"
  let ?fa = "''Frame: Width = 73, Radius = 36.5, Bronze''"
  let ?fb = "''Frame: Height = 36.5, Bronze''"
  have lsa: "text_lines
      ''7300 Series Direct Set Half Round 73 x 36 1/2 - FLANGE\<newline>Frame: Width = 73, Radius = 36.5, Bronze'' =
      [?d, ?fa]"
    by code_simp
  have lsb: "text_lines
      ''7300 Series Direct Set Half Round 73 x 36 1/2 - FLANGE\<newline>Frame: Height = 36.5, Bronze'' =
      [?d, ?fb]"
    by code_simp
  have m: "match_items desc_pattern ?d = Some ?m" by code_simp
  have sa: "startswith ?fa ''Frame:''" by code_simp
  have sb: "startswith ?fb ''Frame:''" by code_simp
  have na: "\<not> sublist ''Height ='' ?fa" by code_simp
  have nb: "\<not> sublist ''Width ='' ?fb" by code_simp
  have wa: "re_search width_pattern ?fa = Some [''73'']" by code_simp
  have hb: "re_search height_pattern ?fb = Some [''36.5'']" by code_simp
  have fw: "py_float ''73'' = Inr 73" by (simp add: py_float_def digits_val_def is_digit_def)
  have fh: "py_float ''36.5'' = Inr (73 / 2)"
    by (simp add: py_float_def digits_val_def is_digit_def)
  have sega: "last (py_split CHR '','' ?fa) = '' Bronze''" by code_simp
  have segb: "last (py_split CHR '','' ?fb) = '' Bronze''" by code_simp
  have colour: "py_strip '' Bronze'' = ''Bronze''" by code_simp
  have id: "py_strip ''7300'' = ''7300''" by code_simp
  have style: "py_strip ''Direct Set Half Round'' = ''Direct Set Half Round''" by code_simp
  note inst = missing_height_or_width
    [of ?fa "''73''" 73 "pending_of ?m" "[]" "[]" ?fb "''36.5''" "73 / 2" "pending_of ?m" "[]" "[]"]
  note ca = inst [THEN conjunct1, THEN mp, OF conjI [OF sa conjI [OF na conjI [OF wa fw]]]]
  note cb = inst [THEN conjunct2, THEN mp, OF conjI [OF sb conjI [OF nb conjI [OF hb fh]]]]
  have stepa: "parse_loop (Some (pending_of ?m)) [] [?fa] =
      Inr [\<lparr>Manufacturer = ''CWS'', Frame_Color = ''Bronze'', Series_ID = ''7300 Series'',
         Window_Style = ''Direct Set Half Round'', Width = Some 73, Height = None\<rparr>]"
    by (simp only: ca) (simp add: pending_of_def sega colour id style)
  have stepb: "parse_loop (Some (pending_of ?m)) [] [?fb] =
      Inr [\<lparr>Manufacturer = ''CWS'', Frame_Color = ''Bronze'', Series_ID = ''7300 Series'',
         Window_Style = ''Direct Set Half Round'', Width = None, Height = Some (73 / 2)\<rparr>]"
    by (simp only: cb) (simp add: pending_of_def segb colour id style)
  have runa: "parse_products_from_text
      ''7300 Series Direct Set Half Round 73 x 36 1/2 - FLANGE\<newline>Frame: Width = 73, Radius = 36.5, Bronze'' =
      Inr [\<lparr>Manufacturer = ''CWS'', Frame_Color = ''Bronze'', Series_ID = ''7300 Series'',
         Window_Style = ''Direct Set Half Round'', Width = Some 73, Height = None\<rparr>]"
    by (simp only: parse_text_lines lsa parse_loop_desc [OF m] stepa)
  have runb: "parse_products_from_text
      ''7300 Series Direct Set Half Round 73 x 36 1/2 - FLANGE\<newline>Frame: Height = 36.5, Bronze'' =
      Inr [\<lparr>Manufacturer = ''CWS'', Frame_Color = ''Bronze'', Series_ID = ''7300 Series'',
         Window_Style = ''Direct Set Half Round'', Width = None, Height = Some (73 / 2)\<rparr>]"
    by (simp only: parse_text_lines lsb parse_loop_desc [OF m] stepb)
  from runa runb show ?thesis by (rule conjI)
qed

subsection \<open>Letter case in description lines\<close>

lemma table_lookup_fixed:
  fixes xs ys :: "'a list"
  assumes len: "length xs = length ys"
    and c: "c \<notin> set xs" "c \<notin> set ys"
    and eq: "(case map_of (zip xs ys) c of Some l \<Rightarrow> l | None \<Rightarrow> c) =
             (case map_of (zip xs ys) c' of Some l \<Rightarrow> l | None \<Rightarrow> c')"
  shows "c' = c"
proof -
  have "map_of (zip xs ys) c = None"
    using len c(1) by (simp add: map_of_zip_is_None)
  with eq have e: "c = (case map_of (zip xs ys) c' of Some l \<Rightarrow> l | None \<Rightarrow> c')"
    by simp
  show ?thesis
  proof (cases "map_of (zip xs ys) c'")
    case None
    with e show ?thesis by simp
  next
    case (Some l)
    then have "l \<in> set ys"
      by (auto dest!: map_of_SomeD set_zip_rightD)
    with e Some c(2) show ?thesis by simp
  qed
qed

lemma ascii_lower_nonletter:
  assumes "c \<notin> set ''ABCDEFGHIJKLMNOPQRSTUVWXYZ''"
    and "c \<notin> set ''abcdefghijklmnopqrstuvwxyz''"
    and "ascii_lower c = ascii_lower c'"
  shows "c' = c"
proof (rule table_lookup_fixed [OF _ assms(1,2)])
  show "length ''ABCDEFGHIJKLMNOPQRSTUVWXYZ'' = length ''abcdefghijklmnopqrstuvwxyz''"
    by simp
  show "(case map_of (zip ''ABCDEFGHIJKLMNOPQRSTUVWXYZ'' ''abcdefghijklmnopqrstuvwxyz'') c of
          Some l \<Rightarrow> l | None \<Rightarrow> c) =
        (case map_of (zip ''ABCDEFGHIJKLMNOPQRSTUVWXYZ'' ''abcdefghijklmnopqrstuvwxyz'') c' of
          Some l \<Rightarrow> l | None \<Rightarrow> c')"
    using assms(3) unfolding ascii_lower_def .
qed

lemma ci_class_fixed:
  assumes up: "list_all (\<lambda>c. \<not> P c) ''ABCDEFGHIJKLMNOPQRSTUVWXYZ''"
    and low: "list_all (\<lambda>c. \<not> P c) ''abcdefghijklmnopqrstuvwxyz''"
  shows "ci_class P"
  unfolding ci_class_def
proof (intro allI impI)
  have nl: "c \<notin> set ''ABCDEFGHIJKLMNOPQRSTUVWXYZ'' \<and> c \<notin> set ''abcdefghijklmnopqrstuvwxyz''"
    if "P c" for c
    using that up low unfolding list_all_iff by blast
  fix c c' assume e: "ascii_lower c = ascii_lower c'"
  show "P c = P c'"
  proof
    assume p: "P c"
    from nl [OF p] have "c' = c"
      using e by (blast intro: ascii_lower_nonletter)
    with p show "P c'" by simp
  next
    assume p: "P c'"
    from nl [OF p] have "c = c'"
      using e [symmetric] by (blast intro: ascii_lower_nonletter)
    with p show "P c" by simp
  qed
qed

lemma ci_is_digit: "ci_class is_digit"
  by (rule ci_class_fixed; code_simp)

lemma ci_is_space: "ci_class is_space"
  by (rule ci_class_fixed; code_simp)

lemma ci_is_dim: "ci_class is_dim"
  by (rule ci_class_fixed; code_simp)

lemma ci_is_any: "ci_class is_any"
proof -
  have "ci_class (\<lambda>c. c = newline)"
    by (rule ci_class_fixed; code_simp)
  then show ?thesis
    unfolding ci_class_def is_any_def by blast
qed

lemma ci_is_ichar: "ci_class (is_ichar l)"
  unfolding ci_class_def is_ichar_def
proof (intro allI impI)
  fix c c' assume e: "ascii_lower c = ascii_lower c'"
  show "(ascii_lower c = ascii_lower l) = (ascii_lower c' = ascii_lower l)"
    by (simp only: e)
qed


lemma desc_pattern_ci: "list_all (\<lambda>it. ci_class (cls it)) desc_pattern"
  unfolding desc_pattern_def ws_plus_def ws_star_def ilit_def
  by (simp only: list.map list.pred_inject append.simps item.sel
      ci_is_digit ci_is_space ci_is_dim ci_is_any ci_is_ichar simp_thms)


lemma case_equiv_Cons:
  "case_equiv (c # cs) t \<longleftrightarrow>
     (\<exists>c' cs'. t = c' # cs' \<and> ascii_lower c = ascii_lower c' \<and> case_equiv cs cs')"
  by (cases t) (auto simp: case_equiv_def)

lemma case_equiv_Nil: "case_equiv [] t \<longleftrightarrow> t = []"
  by (auto simp: case_equiv_def)

lemma case_equiv_drop: "case_equiv s t \<Longrightarrow> case_equiv (drop k s) (drop k t)"
  by (simp add: case_equiv_def drop_map [symmetric])

lemma takeWhile_ci:
  assumes "ci_class P" and "case_equiv s t"
  shows "length (takeWhile P s) = length (takeWhile P t)"
  using assms(2)
proof (induction s arbitrary: t)
  case Nil
  then show ?case by (simp add: case_equiv_Nil)
next
  case (Cons c cs)
  from Cons.prems obtain c' cs' where t: "t = c' # cs'"
    and e: "ascii_lower c = ascii_lower c'" and r: "case_equiv cs cs'"
    unfolding case_equiv_Cons by blast
  have "P c = P c'" using assms(1) e unfolding ci_class_def by blast
  then show ?case by (simp add: t Cons.IH [OF r])
qed

lemma candidates_ci:
  assumes "ci_class (cls it)" and "case_equiv s t"
  shows "candidates it s = candidates it t"
  unfolding candidates_def takeWhile_ci [OF assms] ..

lemma first_some_rel:
  assumes "\<And>k. k \<in> set ks \<Longrightarrow> rel_option R (f k) (g k)"
  shows "rel_option R (first_some f ks) (first_some g ks)"
  using assms
proof (induction ks)
  case Nil
  show ?case by simp
next
  case (Cons k ks)
  have "rel_option R (f k) (g k)" by (rule Cons.prems) simp
  moreover have "rel_option R (first_some f ks) (first_some g ks)"
    by (rule Cons.IH) (simp add: Cons.prems)
  ultimately show ?case
    by (cases "f k"; cases "g k") simp_all
qed

lemma slices_shift:
  "slices (drop k s) sp = slices s (map (\<lambda>(i, n). (i + k, n)) sp)"
  by (simp add: slices_def split_def comp_def)

lemma match_items_ci:
  assumes "list_all (\<lambda>it. ci_class (cls it)) its" and "case_equiv s t"
  shows "rel_option (\<lambda>m m'. \<exists>sp. m = slices s sp \<and> m' = slices t sp)
           (match_items its s) (match_items its t)"
  using assms
proof (induction its arbitrary: s t)
  case Nil
  have "[] = slices s [] \<and> [] = slices t []" by (simp add: slices_def)
  then have "\<exists>sp. [] = slices s sp \<and> [] = slices t sp" ..
  then show ?case by simp
next
  case (Cons it its)
  have ci: "ci_class (cls it)" and rest: "list_all (\<lambda>it. ci_class (cls it)) its"
    using Cons.prems(1) by simp_all
  have cand: "candidates it s = candidates it t"
    using ci Cons.prems(2) by (rule candidates_ci)
  have step: "rel_option (\<lambda>m m'. \<exists>sp. m = slices s sp \<and> m' = slices t sp)
      (case match_items its (drop k s) of None \<Rightarrow> None
       | Some gs \<Rightarrow> Some (if capture it then take k s # gs else gs))
      (case match_items its (drop k t) of None \<Rightarrow> None
       | Some gs \<Rightarrow> Some (if capture it then take k t # gs else gs))" for k
  proof -
    have ih: "rel_option (\<lambda>m m'. \<exists>sp. m = slices (drop k s) sp \<and> m' = slices (drop k t) sp)
        (match_items its (drop k s)) (match_items its (drop k t))"
      using rest case_equiv_drop [OF Cons.prems(2)] by (rule Cons.IH)
    show ?thesis
    proof (cases "match_items its (drop k s)")
      case None
      with ih show ?thesis by (cases "match_items its (drop k t)") simp_all
    next
      case (Some gs)
      with ih obtain gs' where t': "match_items its (drop k t) = Some gs'"
        and "\<exists>sp. gs = slices (drop k s) sp \<and> gs' = slices (drop k t) sp"
        by (cases "match_items its (drop k t)") simp_all
      then obtain sp where gs: "gs = slices (drop k s) sp" and gs': "gs' = slices (drop k t) sp"
        by blast
      let ?sp = "map (\<lambda>(i, n). (i + k, n)) sp"
      have a: "gs = slices s ?sp" and b: "gs' = slices t ?sp"
        using gs gs' by (simp_all add: slices_shift)
      have c: "take k s # gs = slices s ((0, k) # ?sp)"
        and d: "take k t # gs' = slices t ((0, k) # ?sp)"
        using a b by (simp_all add: slices_def)
      show ?thesis
      proof (cases "capture it")
        case True
        have "\<exists>sp. take k s # gs = slices s sp \<and> take k t # gs' = slices t sp"
          using c d by blast
        then show ?thesis by (simp add: Some t' True)
      next
        case False
        have "\<exists>sp. gs = slices s sp \<and> gs' = slices t sp"
          using a b by blast
        then show ?thesis by (simp add: Some t' False)
      qed
    qed
  qed
  show ?case
    unfolding match_items.simps cand
    by (rule first_some_rel) (rule step)
qed


lemma digit_nonletter:
  assumes "is_digit c"
  shows "c \<notin> set ''ABCDEFGHIJKLMNOPQRSTUVWXYZ'' \<and> c \<notin> set ''abcdefghijklmnopqrstuvwxyz''"
proof -
  have "list_all (\<lambda>c. \<not> is_digit c) ''ABCDEFGHIJKLMNOPQRSTUVWXYZ''"
    and "list_all (\<lambda>c. \<not> is_digit c) ''abcdefghijklmnopqrstuvwxyz''"
    by code_simp+
  with assms show ?thesis unfolding list_all_iff by blast
qed

lemma case_equiv_digits:
  assumes "case_equiv s t" and "list_all is_digit s"
  shows "t = s"
  using assms
proof (induction s arbitrary: t)
  case Nil
  then show ?case by (simp add: case_equiv_Nil)
next
  case (Cons c cs)
  from Cons.prems(1) obtain c' cs' where t: "t = c' # cs'"
    and e: "ascii_lower c = ascii_lower c'" and r: "case_equiv cs cs'"
    unfolding case_equiv_Cons by blast
  have "is_digit c" and d: "list_all is_digit cs" using Cons.prems(2) by simp_all
  then have "c' = c"
    using digit_nonletter e by (blast intro: ascii_lower_nonletter)
  moreover have "cs' = cs" using r d by (rule Cons.IH)
  ultimately show ?case by (simp add: t)
qed

lemma case_equiv_take: "case_equiv s t \<Longrightarrow> case_equiv (take k s) (take k t)"
  by (simp add: case_equiv_def take_map [symmetric])

lemma desc_series_id_ci:
  assumes "case_equiv line line'"
    and "match_items desc_pattern line = Some m"
    and "match_items desc_pattern line' = Some m'"
  shows "m ! 0 = m' ! 0"
proof -
  obtain g1 g2 g3 g4 where m: "m = [g1, g2, g3, g4]"
    using assms(2) by (rule desc_match_groups)
  obtain h1 h2 h3 h4 where m': "m' = [h1, h2, h3, h4]"
    using assms(3) by (rule desc_match_groups)
  have g: "g1 = take 4 line" and dg: "list_all is_digit g1"
    using desc_group1 [of line g1 "[g2, g3, g4]"] assms(2) unfolding m by blast+
  have h: "h1 = take 4 line'"
    using desc_group1 [of line' h1 "[h2, h3, h4]"] assms(3) unfolding m' by blast
  have "case_equiv g1 h1"
    unfolding g h using assms(1) by (rule case_equiv_take)
  then have "h1 = g1" using dg by (rule case_equiv_digits)
  then show ?thesis by (simp add: m m')
qed

text \<open>
  C10. The description pattern looks at no letter's case. Two lines that differ only in
  the case of ASCII letters, for instance \<^verbatim>\<open>series\<close> for \<^verbatim>\<open>Series\<close> or \<^verbatim>\<open>X\<close> for
  \<^verbatim>\<open>x\<close>, either both fail to match or both match with every group at the same
  position and of the same length. The first group is then the same string, and when
  the captured style phrase is the same string too, the pending description, and so the
  record built from it, is the same.
\<close>

theorem desc_match_ignores_case:
  assumes "case_equiv line line'"
  shows "rel_option
           (\<lambda>m m'. (\<exists>sp. m = slices line sp \<and> m' = slices line' sp) \<and>
              (m ! 1 = m' ! 1 \<longrightarrow> pending_of m = pending_of m'))
           (match_items desc_pattern line) (match_items desc_pattern line')"
proof -
  have sp: "rel_option (\<lambda>m m'. \<exists>sp. m = slices line sp \<and> m' = slices line' sp)
      (match_items desc_pattern line) (match_items desc_pattern line')"
    using desc_pattern_ci assms by (rule match_items_ci)
  show ?thesis
  proof (cases "match_items desc_pattern line")
    case None
    with sp show ?thesis by (cases "match_items desc_pattern line'") simp_all
  next
    case (Some m)
    with sp obtain m' where m': "match_items desc_pattern line' = Some m'"
      and same: "\<exists>sp. m = slices line sp \<and> m' = slices line' sp"
      by (cases "match_items desc_pattern line'") simp_all
    have "m ! 0 = m' ! 0" using assms Some m' by (rule desc_series_id_ci)
    then have "m ! 1 = m' ! 1 \<longrightarrow> pending_of m = pending_of m'"
      by (simp add: pending_of_def)
    with same show ?thesis by (simp add: Some m')
  qed
qed

theorem desc_match_ignores_case_witness:
  "rel_option
     (\<lambda>m m'. (\<exists>sp. m = slices ''7300 Series Direct Set Half Round 73 x 36 1/2 - FLANGE'' sp \<and>
                    m' = slices ''7300 series Direct Set Half Round 73 X 36 1/2 - FLANGE'' sp) \<and>
        (m ! 1 = m' ! 1 \<longrightarrow> pending_of m = pending_of m'))
     (match_items desc_pattern ''7300 Series Direct Set Half Round 73 x 36 1/2 - FLANGE'')
     (match_items desc_pattern ''7300 series Direct Set Half Round 73 X 36 1/2 - FLANGE'') \<and>
   match_items desc_pattern ''7300 series Direct Set Half Round 73 X 36 1/2 - FLANGE'' =
     Some [''7300'', ''Direct Set Half Round'', ''73 '', ''36 1/2 ''] \<and>
   match_items desc_pattern ''7300 Series Direct Set Half Round 73 x 36 1/2 - FLANGE'' =
     Some [''7300'', ''Direct Set Half Round'', ''73 '', ''36 1/2 '']"
proof -
  have e: "case_equiv ''7300 Series Direct Set Half Round 73 x 36 1/2 - FLANGE''
      ''7300 series Direct Set Half Round 73 X 36 1/2 - FLANGE''"
    by code_simp
  have a: "match_items desc_pattern ''7300 series Direct Set Half Round 73 X 36 1/2 - FLANGE'' =
     Some [''7300'', ''Direct Set Half Round'', ''73 '', ''36 1/2 '']"
    by code_simp
  have b: "match_items desc_pattern ''7300 Series Direct Set Half Round 73 x 36 1/2 - FLANGE'' =
     Some [''7300'', ''Direct Set Half Round'', ''73 '', ''36 1/2 '']"
    by code_simp
  from desc_match_ignores_case [OF e] a b show ?thesis by (intro conjI)
qed

subsection \<open>What float is called on\<close>

text \<open>
  The argument of \<^verbatim>\<open>float\<close> in the loop is always a non-empty string of digits and
  dots, the strings on which \<^const>\<open>py_float\<close> is the \<^verbatim>\<open>float\<close> of Python.
\<close>

lemma re_search_SomeD:
  "re_search its line = Some m \<Longrightarrow> \<exists>k. match_items its (drop k line) = Some m"
proof (induction line)
  case Nil
  then show ?case by (simp add: re_search.simps)
next
  case (Cons c cs)
  show ?case
  proof (cases "match_items its (c # cs)")
    case (Some gs)
    with Cons.prems have "match_items its (drop 0 (c # cs)) = Some m"
      by (simp add: re_search.simps)
    then show ?thesis by blast
  next
    case None
    with Cons.prems have "re_search its cs = Some m"
      by (simp add: re_search.simps)
    from Cons.IH [OF this] obtain k where "match_items its (drop k cs) = Some m" ..
    then have "match_items its (drop (Suc k) (c # cs)) = Some m" by simp
    then show ?thesis by blast
  qed
qed

lemma match_skip_item:
  assumes "match_items (it # its) s = Some m" and "\<not> capture it"
  shows "\<exists>k. match_items its (drop k s) = Some m"
proof -
  from assms(1) obtain k where
    "(case match_items its (drop k s) of None \<Rightarrow> None
      | Some gs \<Rightarrow> Some (if capture it then take k s # gs else gs)) = Some m"
    by (auto dest: first_some_SomeD)
  then have "match_items its (drop k s) = Some m"
    using assms(2) by (auto split: option.splits)
  then show ?thesis ..
qed

lemma match_last_group:
  assumes "match_items [Item P (Suc 0) None True True] s = Some m"
  shows "\<exists>g. m = [g] \<and> g \<noteq> [] \<and> list_all P g"
proof -
  from assms obtain k where k: "k \<in> set (candidates (Item P (Suc 0) None True True) s)"
    and m: "m = [take k s]"
    by (auto dest!: first_some_SomeD)
  from k have k1: "1 \<le> k" and kn: "k \<le> length (takeWhile P s)"
    by (auto simp: candidates_def Let_def split: if_splits)
  have "list_all P (take k s)" using kn by (rule take_takeWhile_all)
  moreover have "k \<le> length s"
    using kn length_takeWhile_le [of P s] by linarith
  then have "take k s \<noteq> []" using k1 by auto
  ultimately show ?thesis using m by blast
qed

lemma num_group_shape:
  assumes "re_search (num_pattern key) line = Some m"
  shows "\<exists>g. m = [g] \<and> g \<noteq> [] \<and> list_all is_num g"
proof -
  from re_search_SomeD [OF assms] obtain k where
    "match_items (num_pattern key) (drop k line) = Some m" ..
  then have a: "match_items [ws_star, Item is_num (Suc 0) None True True]
      (drop (length key) (drop k line)) = Some m"
    by (simp add: num_pattern_def match_lits del: match_items.simps split: if_splits)
  have b: "\<not> capture ws_star" by (simp add: ws_star_def)
  from match_skip_item [OF a b] obtain j where
    "match_items [Item is_num (Suc 0) None True True]
       (drop j (drop (length key) (drop k line))) = Some m" ..
  then show ?thesis by (rule match_last_group)
qed

subsection \<open>Pairs that give no record\<close>

text \<open>
  C3. The claim is that for every text a record is emitted exactly when a description
  match is followed by a frame line with no description match in between. The code
  does not do that on the text below: its four lines are two such pairs, and the first
  pair alone would give a record, but \<^verbatim>\<open>float\<close> raises ValueError on the token
  \<^verbatim>\<open>30..5\<close> of the second frame line, the exception leaves the function, and no
  record is returned for either pair.
\<close>

theorem pairs_without_records:
  "pairs (marks (text_lines
     ''7300 Series Direct Set Half Round 73 x 36 1/2 - FLANGE\<newline>Frame: Width = 73, Height = 36.5, Bronze\<newline>8100 series Single Hung 30 X 60 1/2 - NAIL FIN\<newline>Frame: Width = 30..5, Height = 60.5, White'')) =
     [(\<lparr>pending_Series_ID = ''7300 Series'', pending_Window_Style = ''Direct Set Half Round''\<rparr>,
       ''Frame: Width = 73, Height = 36.5, Bronze''),
      (\<lparr>pending_Series_ID = ''8100 Series'', pending_Window_Style = ''Single Hung''\<rparr>,
       ''Frame: Width = 30..5, Height = 60.5, White'')] \<and>
   frame_product
     \<lparr>pending_Series_ID = ''7300 Series'', pending_Window_Style = ''Direct Set Half Round''\<rparr>
     ''Frame: Width = 73, Height = 36.5, Bronze'' =
     Inr \<lparr>Manufacturer = ''CWS'', Frame_Color = ''Bronze'', Series_ID = ''7300 Series'',
          Window_Style = ''Direct Set Half Round'', Width = Some 73, Height = Some (73 / 2)\<rparr> \<and>
   parse_products_from_text
     ''7300 Series Direct Set Half Round 73 x 36 1/2 - FLANGE\<newline>Frame: Width = 73, Height = 36.5, Bronze\<newline>8100 series Single Hung 30 X 60 1/2 - NAIL FIN\<newline>Frame: Width = 30..5, Height = 60.5, White'' =
     Inl ValueError"
proof -
  let ?d1 = "''7300 Series Direct Set Half Round 73 x 36 1/2 - FLANGE''"
  let ?f1 = "''Frame: Width = 73, Height = 36.5, Bronze''"
  let ?d2 = "''8100 series Single Hung 30 X 60 1/2 - NAIL FIN''"
  let ?f2 = "''Frame: Width = 30..5, Height = 60.5, White''"
  let ?m1 = "[''7300'', ''Direct Set Half Round'', ''73 '', ''36 1/2 '']"
  let ?m2 = "[''8100'', ''Single Hung'', ''30 '', ''60 1/2 '']"
  let ?p1 = "\<lparr>pending_Series_ID = ''7300 Series'', pending_Window_Style = ''Direct Set Half Round''\<rparr>"
  let ?p2 = "\<lparr>pending_Series_ID = ''8100 Series'', pending_Window_Style = ''Single Hung''\<rparr>"
  let ?text = "''7300 Series Direct Set Half Round 73 x 36 1/2 - FLANGE\<newline>Frame: Width = 73, Height = 36.5, Bronze\<newline>8100 series Single Hung 30 X 60 1/2 - NAIL FIN\<newline>Frame: Width = 30..5, Height = 60.5, White''"
  have ls: "text_lines ?text = [?d1, ?f1, ?d2, ?f2]" by code_simp
  have m1: "match_items desc_pattern ?d1 = Some ?m1" by code_simp
  have m2: "match_items desc_pattern ?d2 = Some ?m2" by code_simp
  have s1: "startswith ?f1 ''Frame:''" by code_simp
  have s2: "startswith ?f2 ''Frame:''" by code_simp
  have id1: "py_strip ''7300'' = ''7300''" by code_simp
  have id2: "py_strip ''8100'' = ''8100''" by code_simp
  have st1: "py_strip ''Direct Set Half Round'' = ''Direct Set Half Round''" by code_simp
  have st2: "py_strip ''Single Hung'' = ''Single Hung''" by code_simp
  have p1: "pending_of ?m1 = ?p1" by (simp add: pending_of_def id1 st1)
  have p2: "pending_of ?m2 = ?p2" by (simp add: pending_of_def id2 st2)
  have c1: "classify ?d1 = Some (Desc ?p1)" by (simp only: classify_def m1 option.case p1)
  have c2: "classify ?f1 = Some (Frame ?f1)"
    by (simp only: classify_def frame_not_desc [OF s1] option.case s1 if_True)
  have c3: "classify ?d2 = Some (Desc ?p2)" by (simp only: classify_def m2 option.case p2)
  have c4: "classify ?f2 = Some (Frame ?f2)"
    by (simp only: classify_def frame_not_desc [OF s2] option.case s2 if_True)
  have prs: "pairs (marks [?d1, ?f1, ?d2, ?f2]) = [(?p1, ?f1), (?p2, ?f2)]"
    by (simp only: marks_Cons marks_Nil c1 c2 c3 c4 option.case pairs.simps)
  have sw: "re_search width_pattern ?f1 = Some [''73'']" by code_simp
  have fw: "py_float ''73'' = Inr 73" by (simp add: py_float_def digits_val_def is_digit_def)
  have sh: "re_search height_pattern ?f1 = Some [''36.5'']" by code_simp
  have fh: "py_float ''36.5'' = Inr (73 / 2)"
    by (simp add: py_float_def digits_val_def is_digit_def)
  have w: "float_or_none (re_search width_pattern ?f1) = Inr (Some 73)"
    by (simp only: sw float_or_none_value [OF fw])
  have h: "float_or_none (re_search height_pattern ?f1) = Inr (Some (73 / 2))"
    by (simp only: sh float_or_none_value [OF fh])
  have seg: "last (py_split CHR '','' ?f1) = '' Bronze''" by code_simp
  have colour: "py_strip '' Bronze'' = ''Bronze''" by code_simp
  have fp1: "frame_product ?p1 ?f1 =
      Inr \<lparr>Manufacturer = ''CWS'', Frame_Color = ''Bronze'', Series_ID = ''7300 Series'',
           Window_Style = ''Direct Set Half Round'', Width = Some 73, Height = Some (73 / 2)\<rparr>"
    by (simp add: frame_product_Inr [OF w h] seg colour)
  have fp1': "frame_product (pending_of ?m1) ?f1 =
      Inr \<lparr>Manufacturer = ''CWS'', Frame_Color = ''Bronze'', Series_ID = ''7300 Series'',
           Window_Style = ''Direct Set Half Round'', Width = Some 73, Height = Some (73 / 2)\<rparr>"
    by (simp only: p1 fp1)
  have bw: "re_search width_pattern ?f2 = Some [''30..5'']" by code_simp
  have bf: "py_float ''30..5'' = Inl ValueError" by (simp add: py_float_def is_digit_def)
  have fp2: "frame_product p ?f2 = Inl ValueError" for p
    by (simp only: frame_product_def bw float_or_none_Some bf ebind_Inl)
  have run: "parse_products_from_text ?text = Inl ValueError"
    by (simp only: parse_text_lines ls parse_loop_desc_frame [OF m1 s1 fp1']
        parse_loop_desc [OF m2] parse_loop_frame [OF s2] fp2 ebind_Inl)
  from prs have "pairs (marks (text_lines ?text)) = [(?p1, ?f1), (?p2, ?f2)]"
    by (simp only: ls)
  then show ?thesis using fp1 run by (intro conjI)
qed

end
